theory Spec2Isabelle
  imports
    Main
    "HOL-Library.Sublist"
    "HOL-Library.Char_ord"
    "HOL-Library.List_Lexorder"
    "HOL-Library.Multiset"
begin

section \<open>The library catalogue: data model (data_models.py)\<close>

text \<open>
  Python strings are modelled as \<open>string\<close>; with \<open>Char_ord\<close> and \<open>List_Lexorder\<close> the
  order on them is the lexicographic order on character codes, which is how Python
  compares \<open>str\<close> values. The case mapping \<open>str.lower\<close> belongs to the interpreter and
  its Unicode tables, not to the repository: the handler takes it as the parameter
  \<open>lower\<close>, and every property below holds for whatever function it is.

  \<open>Author\<close> and \<open>Book\<close> are the two mapped classes. A loaded \<open>Book\<close> carries its \<open>author\<close>
  relationship: \<open>author_id\<close> is declared a non-null foreign key and the attribute is
  documented as the associated \<open>Author\<close> instance. The columns \<open>isbn\<close> and
  \<open>publication_year\<close> are nullable.
\<close>

type_synonym date = "nat \<times> nat \<times> nat"

record author =
  author_pk :: nat
  name :: string
  birth_date :: "date option"
  date_of_death :: "date option"

record book =
  book_pk :: nat
  isbn :: "string option"
  title :: string
  publication_year :: "int option"
  author_id :: nat
  author :: author

text \<open>The record store behind \<open>db.session\<close>: the rows of the two tables.\<close>

record store =
  authors :: "author list"
  books :: "book list"

text \<open>What a handler does to the outside world, in the order it does it.\<close>

datatype effect =
    Query_all_books
  | Query_get_book nat
  | Requests_get string
  | Session_delete nat
  | Session_commit

section \<open>Python values, exceptions and the operations the handlers use\<close>

datatype py_error =
    RequestException
  | JSONDecodeError
  | TypeError
  | KeyError
  | IndexError
  | AttributeError

text \<open>
  The values a view entry and a decoded JSON body are made of. A \<open>dict\<close> is an
  association list in insertion order; a JSON number is kept as an integer (no branch of
  the code looks at its value).
\<close>

datatype pyval =
    PNone
  | PBool bool
  | PInt int
  | PStr string
  | PList "pyval list"
  | PDict "(string \<times> pyval) list"
  | PAuthor author

type_synonym pydict = "(string \<times> pyval) list"

text \<open>\<open>s in t\<close> on two strings: a left-to-right search for an occurrence of \<open>s\<close>.\<close>

fun str_in :: "string \<Rightarrow> string \<Rightarrow> bool" where
  "str_in s [] = (s = [])"
| "str_in s (c # cs) = (prefix s (c # cs) \<or> str_in s cs)"

text \<open>\<open>d[k] = v\<close> on a dict: an existing key keeps its place, a new one goes last.\<close>

fun dict_setitem :: "string \<Rightarrow> pyval \<Rightarrow> pydict \<Rightarrow> pydict" where
  "dict_setitem k v [] = [(k, v)]"
| "dict_setitem k v ((k', v') # d) =
     (if k' = k then (k, v) # d else (k', v') # dict_setitem k v d)"

text \<open>\<open>k in x\<close> for a string key \<open>k\<close> and any value \<open>x\<close>.\<close>

fun py_contains :: "string \<Rightarrow> pyval \<Rightarrow> py_error + bool" where
  "py_contains k (PDict d) = Inr (map_of d k \<noteq> None)"
| "py_contains k (PList xs) = Inr (PStr k \<in> set xs)"
| "py_contains k (PStr s) = Inr (str_in k s)"
| "py_contains k _ = Inl TypeError"

text \<open>\<open>x[k]\<close> for a string key \<open>k\<close>.\<close>

fun py_getitem :: "pyval \<Rightarrow> string \<Rightarrow> py_error + pyval" where
  "py_getitem (PDict d) k = (case map_of d k of None \<Rightarrow> Inl KeyError | Some v \<Rightarrow> Inr v)"
| "py_getitem _ k = Inl TypeError"

text \<open>\<open>len(x)\<close>\<close>

fun py_len :: "pyval \<Rightarrow> py_error + nat" where
  "py_len (PList xs) = Inr (length xs)"
| "py_len (PStr s) = Inr (length s)"
| "py_len (PDict d) = Inr (length (remdups (map fst d)))"
| "py_len _ = Inl TypeError"

text \<open>\<open>x[0]\<close>; the keys of a decoded JSON object are strings, so \<open>0\<close> is never one.\<close>

fun py_first :: "pyval \<Rightarrow> py_error + pyval" where
  "py_first (PList []) = Inl IndexError"
| "py_first (PList (x # xs)) = Inr x"
| "py_first (PStr []) = Inl IndexError"
| "py_first (PStr (c # cs)) = Inr (PStr [c])"
| "py_first (PDict d) = Inl KeyError"
| "py_first _ = Inl TypeError"

text \<open>\<open>x.get(k, default)\<close>: only a dict has the method.\<close>

fun py_get :: "pyval \<Rightarrow> string \<Rightarrow> pyval \<Rightarrow> py_error + pyval" where
  "py_get (PDict d) k dflt = Inr (case map_of d k of None \<Rightarrow> dflt | Some v \<Rightarrow> v)"
| "py_get _ k dflt = Inl AttributeError"

text \<open>\<open>str(x)\<close> inside the f-string, for a nullable text column.\<close>

definition str_of :: "string option \<Rightarrow> string" where
  "str_of x = (case x of None \<Rightarrow> ''None'' | Some s \<Rightarrow> s)"

definition val_of_str :: "string option \<Rightarrow> pyval" where
  "val_of_str x = (case x of None \<Rightarrow> PNone | Some s \<Rightarrow> PStr s)"

definition val_of_int :: "int option \<Rightarrow> pyval" where
  "val_of_int x = (case x of None \<Rightarrow> PNone | Some i \<Rightarrow> PInt i)"

section \<open>The outside world: HTTP requests, the lookup service, responses\<close>

datatype http_method = GET | HEAD | POST | PUT | DELETE | PATCH | OPTIONS

text \<open>
  A reply of the lookup service: its status code and its body as \<open>response.json()\<close>
  decodes it, \<open>None\<close> when the body is not JSON (the call then raises).
  \<open>requests.get\<close> either returns a reply or raises (connection error, timeout).
\<close>

record reply =
  status_code :: int
  json :: "pyval option"

datatype get_outcome = Raises | Returns reply

text \<open>
  The network answers the \<open>n\<close>-th lookup of a request for a URL; nothing forces two
  lookups of one URL to get the same answer.
\<close>

type_synonym network = "nat \<Rightarrow> string \<Rightarrow> get_outcome"

datatype template_context = Books "pydict list" | The_book book

datatype response =
    Rendered string template_context
  | Redirected string int
  | Options_reply
  | Method_not_allowed

text \<open>
  \<open>redirect(location, code=302, Response=None)\<close> of the web framework; the third
  argument lists the names of the further keyword arguments of a call. A keyword the
  signature does not have is a \<open>TypeError\<close> at the call.
\<close>

definition redirect :: "string \<Rightarrow> int \<Rightarrow> string list \<Rightarrow> py_error + response" where
  "redirect location code kwargs =
     (if set kwargs \<subseteq> {''Response''} then Inr (Redirected location code) else Inl TypeError)"

text \<open>
  A route declared with a list of methods: the framework adds \<open>HEAD\<close> to a route that
  has \<open>GET\<close>, answers \<open>OPTIONS\<close> by itself, and refuses every other method before the
  handler runs.
\<close>

definition route_accepts :: "http_method list \<Rightarrow> http_method \<Rightarrow> bool" where
  "route_accepts methods m = (m \<in> set methods \<or> (m = HEAD \<and> GET \<in> set methods))"

section \<open>The listing handler \<open>home\<close> (app.py)\<close>

record request_args =
  sort_by :: "string option"
  search_query :: "string option"

text \<open>
  Lines 102 to 105: \<open>if search_query:\<close> and the list comprehension; \<open>lower\<close> is the
  interpreter's \<open>str.lower\<close>.
\<close>

definition home_filter ::
  "(string \<Rightarrow> string) \<Rightarrow> string option \<Rightarrow> book list \<Rightarrow> book list" where
  "home_filter lower q bs =
     (case q of
        None \<Rightarrow> bs
      | Some s \<Rightarrow>
          if s \<noteq> [] then
            filter (\<lambda>book. str_in (lower s) (lower (title book)) \<or>
                           str_in (lower s) (lower (name (author book)))) bs
          else bs)"

text \<open>Lines 107 to 111: \<open>list.sort(key=...)\<close>, a stable ascending sort on the key.\<close>

definition home_sort :: "string option \<Rightarrow> book list \<Rightarrow> book list" where
  "home_sort sb bs =
     (if sb = Some ''title'' then sort_key (\<lambda>x. title x) bs
      else if sb = Some ''author'' then sort_key (\<lambda>x. name (author x)) bs
      else bs)"

text \<open>Lines 116 to 121: the entry before its cover image is known.\<close>

definition book_info_of :: "book \<Rightarrow> pydict" where
  "book_info_of b =
     [(''title'', PStr (title b)),
      (''isbn'', val_of_str (isbn b)),
      (''publication_year'', val_of_int (publication_year b)),
      (''author_name'', PAuthor (author b))]"

definition cover_url :: "book \<Rightarrow> string" where
  "cover_url b = ''https://www.googleapis.com/books/v1/volumes?q=isbn:'' @ str_of (isbn b)"

text \<open>
  Lines 123 to 132, from the outcome of \<open>requests.get\<close> to the value stored under
  \<open>cover_image\<close>; an exception leaves the handler.
\<close>

definition cover_image_of :: "get_outcome \<Rightarrow> py_error + pyval" where
  "cover_image_of outcome =
     (case outcome of
        Raises \<Rightarrow> Inl RequestException
      | Returns r \<Rightarrow>
          if status_code r = 200 then
            (case json r of
               None \<Rightarrow> Inl JSONDecodeError
             | Some data \<Rightarrow>
                 (case py_contains ''items'' data of
                    Inl e \<Rightarrow> Inl e
                  | Inr False \<Rightarrow> Inr (PStr [])
                  | Inr True \<Rightarrow>
                      (case py_getitem data ''items'' of
                         Inl e \<Rightarrow> Inl e
                       | Inr items \<Rightarrow>
                           (case py_len items of
                              Inl e \<Rightarrow> Inl e
                            | Inr n \<Rightarrow>
                                if n > 0 then
                                  (case py_first items of
                                     Inl e \<Rightarrow> Inl e
                                   | Inr item \<Rightarrow>
                                       (case py_getitem item ''volumeInfo'' of
                                          Inl e \<Rightarrow> Inl e
                                        | Inr info \<Rightarrow>
                                            (case py_get info ''imageLinks'' (PDict []) of
                                               Inl e \<Rightarrow> Inl e
                                             | Inr links \<Rightarrow> py_get links ''thumbnail'' (PStr []))))
                                else Inr (PStr [])))))
          else Inr (PStr []))"

text \<open>
  Lines 114 to 134, the loop over the surviving books: \<open>n\<close> counts the lookups made,
  \<open>books_data\<close> is the list built so far and \<open>tr\<close> the effects so far.
\<close>

fun home_enrich ::
  "network \<Rightarrow> nat \<Rightarrow> book list \<Rightarrow> pydict list \<Rightarrow> effect list \<Rightarrow>
     (py_error + pydict list) \<times> effect list" where
  "home_enrich net n [] books_data tr = (Inr books_data, tr)"
| "home_enrich net n (b # bs) books_data tr =
     (case cover_image_of (net n (cover_url b)) of
        Inl e \<Rightarrow> (Inl e, tr @ [Requests_get (cover_url b)])
      | Inr cover \<Rightarrow>
          home_enrich net (Suc n) bs
            (books_data @ [dict_setitem ''cover_image'' cover (book_info_of b)])
            (tr @ [Requests_get (cover_url b)]))"

text \<open>
  The handler: its result (a response or the exception that left it), the store after
  it, and its effects.
\<close>

definition home ::
  "(string \<Rightarrow> string) \<Rightarrow> network \<Rightarrow> request_args \<Rightarrow> store \<Rightarrow>
     (py_error + response) \<times> store \<times> effect list" where
  "home lower net args st =
     (case home_enrich net 0
             (home_sort (sort_by args) (home_filter lower (search_query args) (books st)))
             [] [Query_all_books] of
        (Inl e, tr) \<Rightarrow> (Inl e, st, tr)
      | (Inr books_data, tr) \<Rightarrow> (Inr (Rendered ''home.html'' (Books books_data)), st, tr))"

section \<open>The delete handler \<open>delete_book\<close> (app.py) and \<open>Book.delete_book\<close>\<close>

text \<open>\<open>Book.query.get(book_id)\<close>\<close>

definition query_get :: "store \<Rightarrow> nat \<Rightarrow> book option" where
  "query_get st k = find (\<lambda>b. book_pk b = k) (books st)"

text \<open>\<open>Book.delete_book\<close>: \<open>db.session.delete(self)\<close>, then \<open>db.session.commit()\<close>.\<close>

definition book_delete_book :: "book \<Rightarrow> store \<Rightarrow> store \<times> effect list" where
  "book_delete_book b st =
     (st\<lparr>books := filter (\<lambda>x. book_pk x \<noteq> book_pk b) (books st)\<rparr>,
      [Session_delete (book_pk b), Session_commit])"

definition delete_book ::
  "http_method \<Rightarrow> nat \<Rightarrow> store \<Rightarrow> (py_error + response) \<times> store \<times> effect list" where
  "delete_book m book_id st =
     (case query_get st book_id of
        None \<Rightarrow> (redirect ''/'' 303 [''message''], st, [Query_get_book book_id])
      | Some b \<Rightarrow>
          if m = POST then
            (case book_delete_book b st of
               (st', tr) \<Rightarrow> (redirect ''/'' 200 [''message''], st', Query_get_book book_id # tr))
          else (Inr (Rendered ''delete_book.html'' (The_book b)), st, [Query_get_book book_id]))"

text \<open>The route \<open>/book/<int:book_id>/delete\<close> with \<open>methods=['GET']\<close>.\<close>

definition delete_book_methods :: "http_method list" where
  "delete_book_methods = [GET]"

definition delete_book_route ::
  "http_method \<Rightarrow> nat \<Rightarrow> store \<Rightarrow> (py_error + response) \<times> store \<times> effect list" where
  "delete_book_route m book_id st =
     (if route_accepts delete_book_methods m then delete_book m book_id st
      else if m = OPTIONS then (Inr Options_reply, st, [])
      else (Inr Method_not_allowed, st, []))"

section \<open>Vocabulary of the properties\<close>

text \<open>
  The surviving books of a request: the books of the store after the filter and the
  sort of the handler, in that order.
\<close>

abbreviation surviving :: "(string \<Rightarrow> string) \<Rightarrow> request_args \<Rightarrow> store \<Rightarrow> book list" where
  "surviving lower args st \<equiv>
     home_sort (sort_by args) (home_filter lower (search_query args) (books st))"

text \<open>
  No lookup of the request ends in an exception; the lookups are numbered from 0 and the
  \<open>i\<close>-th lookup is the one for the \<open>i\<close>-th book.
\<close>

definition lookups_answered :: "network \<Rightarrow> book list \<Rightarrow> bool" where
  "lookups_answered net bs =
     list_all (\<lambda>(i, b). \<not> isl (cover_image_of (net i (cover_url b)))) (enumerate 0 bs)"

text \<open>The view entry of a book whose \<open>cover_image\<close> is \<open>c\<close>: five keys, in this order.\<close>

definition entry_of :: "book \<Rightarrow> pyval \<Rightarrow> pydict" where
  "entry_of b c =
     [(''title'', PStr (title b)),
      (''isbn'', val_of_str (isbn b)),
      (''publication_year'', val_of_int (publication_year b)),
      (''author_name'', PAuthor (author b)),
      (''cover_image'', c)]"

fun is_str :: "pyval \<Rightarrow> bool" where
  "is_str (PStr s) = True"
| "is_str _ = False"

text \<open>
  The thumbnail a reply carries: the value under \<open>thumbnail\<close> in the \<open>imageLinks\<close> of the
  \<open>volumeInfo\<close> of the first record of a reply with status 200, when the reply has one.
\<close>

definition reply_thumbnail :: "get_outcome \<Rightarrow> pyval option" where
  "reply_thumbnail outcome =
     (case outcome of
        Raises \<Rightarrow> None
      | Returns r \<Rightarrow>
          if status_code r = 200 then
            (case json r of
               Some (PDict d) \<Rightarrow>
                 (case map_of d ''items'' of
                    Some (PList (PDict item # rest)) \<Rightarrow>
                      (case map_of item ''volumeInfo'' of
                         Some (PDict info) \<Rightarrow>
                           (case map_of info ''imageLinks'' of
                              Some (PDict links) \<Rightarrow> map_of links ''thumbnail''
                            | _ \<Rightarrow> None)
                       | _ \<Rightarrow> None)
                  | _ \<Rightarrow> None)
             | _ \<Rightarrow> None)
          else None)"

definition thumbnail_is_str :: "get_outcome \<Rightarrow> bool" where
  "thumbnail_is_str outcome =
     (case reply_thumbnail outcome of None \<Rightarrow> True | Some v \<Rightarrow> is_str v)"

subsection \<open>Scenario data\<close>

definition herbert :: author where
  "herbert = \<lparr>author_pk = 1, name = ''Herbert'', birth_date = None, date_of_death = None\<rparr>"

definition austen :: author where
  "austen = \<lparr>author_pk = 2, name = ''Austen'', birth_date = None, date_of_death = None\<rparr>"

definition dune :: book where
  "dune = \<lparr>book_pk = 1, isbn = Some ''123'', title = ''Dune'',
            publication_year = Some 1965, author_id = 1, author = herbert\<rparr>"

definition emma :: book where
  "emma = \<lparr>book_pk = 2, isbn = Some ''456'', title = ''Emma'',
            publication_year = Some 1815, author_id = 2, author = austen\<rparr>"

definition library :: store where
  "library = \<lparr>authors = [herbert, austen], books = [dune, emma]\<rparr>"

text \<open>
  The scenario data is ASCII text; on ASCII text \<open>str.lower\<close> maps the letters \<open>A\<close> to
  \<open>Z\<close> to \<open>a\<close> to \<open>z\<close> and leaves every other character as it is. This is the case
  mapping the scenarios are run with.
\<close>

definition lower_ascii_char :: "char \<Rightarrow> char" where
  "lower_ascii_char c =
     (if CHR ''A'' \<le> c \<and> c \<le> CHR ''Z'' then char_of (of_char c + (32::nat)) else c)"

definition lower_ascii :: "string \<Rightarrow> string" where
  "lower_ascii s = map lower_ascii_char s"

definition no_args :: request_args where
  "no_args = \<lparr>sort_by = None, search_query = None\<rparr>"

text \<open>Every lookup raises (no connection, timeout).\<close>

definition net_down :: network where
  "net_down = (\<lambda>n url. Raises)"

text \<open>Every lookup is answered with the given status and a body that is not JSON.\<close>

definition net_status :: "int \<Rightarrow> network" where
  "net_status code = (\<lambda>n url. Returns \<lparr>status_code = code, json = None\<rparr>)"

text \<open>A body with one matching record whose thumbnail is the given JSON value.\<close>

definition body_thumbnail :: "pyval \<Rightarrow> pyval" where
  "body_thumbnail v =
     PDict [(''items'',
       PList [PDict [(''volumeInfo'', PDict [(''imageLinks'', PDict [(''thumbnail'', v)])])]])]"

definition net_thumbnail :: "pyval \<Rightarrow> network" where
  "net_thumbnail v = (\<lambda>n url. Returns \<lparr>status_code = 200, json = Some (body_thumbnail v)\<rparr>)"

section \<open>Lemmas on the operations\<close>

lemma lookups_answered_iff:
  "lookups_answered net bs \<longleftrightarrow>
     (\<forall>i<length bs. \<not> isl (cover_image_of (net i (cover_url (bs ! i)))))"
  by (simp add: lookups_answered_def list_all_length nth_enumerate_eq)

lemma dict_setitem_book_info:
  "dict_setitem ''cover_image'' c (book_info_of b) = entry_of b c"
  by (simp add: book_info_of_def entry_of_def)

lemma home_enrich_answered:
  "\<forall>i<length bs. \<not> isl (cover_image_of (net (n + i) (cover_url (bs ! i)))) \<Longrightarrow>
   \<exists>out. home_enrich net n bs acc tr =
           (Inr (acc @ out), tr @ map (\<lambda>b. Requests_get (cover_url b)) bs) \<and>
         length out = length bs \<and>
         (\<forall>i<length bs. out ! i =
            entry_of (bs ! i) (projr (cover_image_of (net (n + i) (cover_url (bs ! i))))))"
proof (induction bs arbitrary: n acc tr)
  case Nil
  then show ?case by simp
next
  case (Cons b bs)
  from Cons.prems have "\<not> isl (cover_image_of (net (n + 0) (cover_url ((b # bs) ! 0))))"
    by blast
  then obtain c where c: "cover_image_of (net n (cover_url b)) = Inr c"
    by (cases "cover_image_of (net n (cover_url b))") auto
  from Cons.prems have "\<forall>i<length bs. \<not> isl (cover_image_of (net (Suc n + i) (cover_url (bs ! i))))"
    by fastforce
  from Cons.IH [OF this, of "acc @ [entry_of b c]" "tr @ [Requests_get (cover_url b)]"]
  obtain out where out:
    "home_enrich net (Suc n) bs (acc @ [entry_of b c]) (tr @ [Requests_get (cover_url b)]) =
       (Inr ((acc @ [entry_of b c]) @ out),
        (tr @ [Requests_get (cover_url b)]) @ map (\<lambda>b. Requests_get (cover_url b)) bs)"
    "length out = length bs"
    "\<forall>i<length bs. out ! i =
        entry_of (bs ! i) (projr (cover_image_of (net (Suc n + i) (cover_url (bs ! i)))))"
    by blast
  have 1: "home_enrich net n (b # bs) acc tr =
      (Inr (acc @ (entry_of b c # out)),
       tr @ map (\<lambda>b. Requests_get (cover_url b)) (b # bs))"
    using c out(1) by (simp add: dict_setitem_book_info)
  have 2: "length (entry_of b c # out) = length (b # bs)"
    using out(2) by simp
  have 3: "\<forall>i<length (b # bs). (entry_of b c # out) ! i =
      entry_of ((b # bs) ! i) (projr (cover_image_of (net (n + i) (cover_url ((b # bs) ! i)))))"
  proof (intro allI impI)
    fix i assume "i < length (b # bs)"
    then show "(entry_of b c # out) ! i =
      entry_of ((b # bs) ! i) (projr (cover_image_of (net (n + i) (cover_url ((b # bs) ! i)))))"
      using c out(3) by (cases i) auto
  qed
  from 1 2 3 show ?case by blast
qed

lemma home_enrich_trace:
  "\<exists>k\<le>length bs. snd (home_enrich net n bs acc tr) =
       tr @ map (\<lambda>b. Requests_get (cover_url b)) (take k bs)"
proof (induction bs arbitrary: n acc tr)
  case Nil
  then show ?case by simp
next
  case (Cons b bs)
  show ?case
  proof (cases "cover_image_of (net n (cover_url b))")
    case (Inl e)
    then have "snd (home_enrich net n (b # bs) acc tr) =
        tr @ map (\<lambda>b. Requests_get (cover_url b)) (take (Suc 0) (b # bs))"
      by simp
    moreover have "Suc 0 \<le> length (b # bs)" by simp
    ultimately show ?thesis by blast
  next
    case (Inr c)
    from Cons.IH [of "Suc n" "acc @ [dict_setitem ''cover_image'' c (book_info_of b)]"
        "tr @ [Requests_get (cover_url b)]"]
    obtain k where k: "k \<le> length bs"
      "snd (home_enrich net (Suc n) bs (acc @ [dict_setitem ''cover_image'' c (book_info_of b)])
          (tr @ [Requests_get (cover_url b)])) =
        (tr @ [Requests_get (cover_url b)]) @ map (\<lambda>b. Requests_get (cover_url b)) (take k bs)"
      by blast
    have "snd (home_enrich net n (b # bs) acc tr) =
        tr @ map (\<lambda>b. Requests_get (cover_url b)) (take (Suc k) (b # bs))"
      using Inr k(2) by simp
    moreover have "Suc k \<le> length (b # bs)" using k(1) by simp
    ultimately show ?thesis by blast
  qed
qed

lemma home_answered:
  assumes "lookups_answered net (surviving lower args st)"
  shows "\<exists>out. home lower net args st =
           (Inr (Rendered ''home.html'' (Books out)), st,
            Query_all_books # map (\<lambda>b. Requests_get (cover_url b)) (surviving lower args st)) \<and>
         length out = length (surviving lower args st) \<and>
         (\<forall>i<length (surviving lower args st). out ! i =
            entry_of (surviving lower args st ! i)
              (projr (cover_image_of (net i (cover_url (surviving lower args st ! i))))))"
proof -
  from assms have "\<forall>i<length (surviving lower args st).
      \<not> isl (cover_image_of (net (0 + i) (cover_url (surviving lower args st ! i))))"
    by (simp add: lookups_answered_iff)
  from home_enrich_answered [OF this, of "[]" "[Query_all_books]"]
  show ?thesis by (auto simp: home_def)
qed

lemma home_store: "fst (snd (home lower net args st)) = st"
  by (simp add: home_def split: prod.splits sum.splits)

lemma home_trace:
  "\<exists>k\<le>length (surviving lower args st). snd (snd (home lower net args st)) =
       Query_all_books # map (\<lambda>b. Requests_get (cover_url b)) (take k (surviving lower args st))"
proof -
  from home_enrich_trace [of "surviving lower args st" net 0 "[]" "[Query_all_books]"]
  obtain k where "k \<le> length (surviving lower args st)"
    "snd (home_enrich net 0 (surviving lower args st) [] [Query_all_books]) =
       [Query_all_books] @ map (\<lambda>b. Requests_get (cover_url b)) (take k (surviving lower args st))"
    by blast
  then show ?thesis
    by (auto simp: home_def split: prod.splits sum.splits)
qed

lemma str_in_iff: "str_in s t \<longleftrightarrow> (\<exists>p q. t = p @ s @ q)"
proof (induction t)
  case Nil
  then show ?case by auto
next
  case (Cons c cs)
  show ?case
  proof
    assume "str_in s (c # cs)"
    then consider "prefix s (c # cs)" | "str_in s cs" by auto
    then show "\<exists>p q. c # cs = p @ s @ q"
    proof cases
      case 1
      then obtain q where "c # cs = s @ q" by (auto simp: prefix_def)
      then have "c # cs = [] @ s @ q" by simp
      then show ?thesis by blast
    next
      case 2
      with Cons.IH obtain p q where "cs = p @ s @ q" by blast
      then have "c # cs = (c # p) @ s @ q" by simp
      then show ?thesis by blast
    qed
  next
    assume "\<exists>p q. c # cs = p @ s @ q"
    then obtain p q where pq: "c # cs = p @ s @ q" by blast
    show "str_in s (c # cs)"
    proof (cases p)
      case Nil
      with pq have "prefix s (c # cs)" by (simp add: prefix_def)
      then show ?thesis by simp
    next
      case (Cons a p')
      with pq have "cs = p' @ s @ q" by simp
      with Cons.IH have "str_in s cs" by blast
      then show ?thesis by simp
    qed
  qed
qed

lemma cover_image_of_non_success:
  "status_code r \<noteq> 200 \<Longrightarrow> cover_image_of (Returns r) = Inr (PStr [])"
  by (simp add: cover_image_of_def)

lemma cover_image_of_value:
  assumes "cover_image_of outcome = Inr c"
  shows "c = (case reply_thumbnail outcome of None \<Rightarrow> PStr [] | Some v \<Rightarrow> v)"
proof (cases outcome)
  case Raises
  with assms show ?thesis by (simp add: cover_image_of_def)
next
  case (Returns r)
  show ?thesis
  proof (cases "status_code r = 200")
    case False
    with assms Returns show ?thesis by (simp add: cover_image_of_def reply_thumbnail_def)
  next
    case True
    with assms Returns show ?thesis
      unfolding cover_image_of_def reply_thumbnail_def
      by (auto split: option.splits sum.splits pyval.splits list.splits if_splits bool.splits
          elim!: py_contains.elims py_getitem.elims py_len.elims py_first.elims py_get.elims)
  qed
qed

lemma cover_image_of_is_str:
  "cover_image_of outcome = Inr c \<Longrightarrow> thumbnail_is_str outcome \<Longrightarrow> is_str c"
  by (drule cover_image_of_value) (simp add: thumbnail_is_str_def split: option.splits)

lemma lookups_answered_status:
  "code \<noteq> 200 \<Longrightarrow> lookups_answered (net_status code) bs"
  by (simp add: lookups_answered_iff net_status_def cover_image_of_def)

lemma cover_image_of_thumbnail:
  "cover_image_of (Returns \<lparr>status_code = 200, json = Some (body_thumbnail v)\<rparr>) = Inr v"
  by (simp add: cover_image_of_def body_thumbnail_def)

lemma lookups_answered_thumbnail: "lookups_answered (net_thumbnail v) bs"
  by (simp add: lookups_answered_iff net_thumbnail_def cover_image_of_thumbnail)

lemma surv_e_author:
  "home_sort (Some ''author'') (home_filter lower_ascii (Some ''E'') (books library)) = [emma, dune]"
  by code_simp

lemma surv_author:
  "home_sort (Some ''author'') (home_filter lower_ascii None (books library)) = [emma, dune]"
  by code_simp

lemma surv_all: "home_sort None (home_filter lower_ascii None (books library)) = [dune, emma]"
  by code_simp

lemma home_sort_scenario_2:
  "home_sort (Some ''title'') [emma, dune] = [dune, emma] \<and>
   home_sort (Some ''author'') [dune, emma] = [emma, dune]"
  by code_simp

lemma home_sort_case_sensitive:
  "home_sort (Some ''title'') [dune\<lparr>title := ''apple''\<rparr>, emma\<lparr>title := ''Zebra''\<rparr>] =
     [emma\<lparr>title := ''Zebra''\<rparr>, dune\<lparr>title := ''apple''\<rparr>]"
  by code_simp

lemma redirect_message: "redirect location code [''message''] = Inl TypeError"
  by (simp add: redirect_def)

lemma delete_book_methods_accepts:
  "route_accepts delete_book_methods m \<longleftrightarrow> m = GET \<or> m = HEAD"
  by (auto simp: route_accepts_def delete_book_methods_def)

lemma delete_book_post_branch:
  "query_get st k = Some b \<Longrightarrow>
   delete_book POST k st =
     (Inl TypeError, st\<lparr>books := filter (\<lambda>x. book_pk x \<noteq> book_pk b) (books st)\<rparr>,
      [Query_get_book k, Session_delete (book_pk b), Session_commit])"
  by (simp add: delete_book_def book_delete_book_def redirect_message)

section \<open>The filter step\<close>

text \<open>
  Strings with the same lower-cased form are the same query: the filter is insensitive
  to the case of the search string, whatever the case mapping is.
\<close>

lemma home_filter_case_insensitive:
  "s \<noteq> [] \<Longrightarrow> s' \<noteq> [] \<Longrightarrow> lower s = lower s' \<Longrightarrow>
   home_filter lower (Some s) B = home_filter lower (Some s') B"
  by (simp add: home_filter_def)

lemma home_filter_scenario_1:
  "home_filter lower_ascii (Some ''du'') [dune, emma] = [dune] \<and>
   home_filter lower_ascii (Some ''DU'') [dune, emma] = [dune] \<and>
   home_filter lower_ascii (Some ''aus'') [dune, emma] = [emma] \<and>
   home_filter lower_ascii (Some ''x'') [dune, emma] = []"
  by code_simp

text \<open>
  Claim C2. For every list of books \<open>B\<close>, every non-empty search string \<open>s\<close> and whatever
  function \<open>lower\<close> the interpreter's \<open>str.lower\<close> is, the filter step keeps exactly the
  books (in their order, with their multiplicity) whose lower-cased title has the
  lower-cased \<open>s\<close> as a substring, or whose author's lower-cased name has; without a
  search string the step returns \<open>B\<close> itself. A substring is stated here as a
  decomposition \<open>p @ s @ q\<close>, the code searches for it.
\<close>

theorem home_filter_exact:
  "(s \<noteq> [] \<longrightarrow>
      home_filter lower (Some s) B =
        filter (\<lambda>b. (\<exists>p q. lower (title b) = p @ lower s @ q) \<or>
                    (\<exists>p q. lower (name (author b)) = p @ lower s @ q)) B) \<and>
   home_filter lower None B = B"
  by (simp add: home_filter_def str_in_iff)

theorem home_filter_exact_witness:
  "''du'' \<noteq> [] \<and>
   home_filter lower_ascii (Some ''du'') [dune, emma] = [dune] \<and>
   filter (\<lambda>b. (\<exists>p q. lower_ascii (title b) = p @ lower_ascii ''du'' @ q) \<or>
               (\<exists>p q. lower_ascii (name (author b)) = p @ lower_ascii ''du'' @ q)) [dune, emma] = [dune] \<and>
   home_filter lower_ascii None [dune, emma] = [dune, emma]"
proof -
  have v: "home_filter lower_ascii (Some ''du'') [dune, emma] = [dune]"
    by code_simp
  from home_filter_exact [where s = "''du''" and B = "[dune, emma]" and lower = lower_ascii] v show ?thesis by simp
qed

text \<open>
  Claim C6. The empty search string is treated as an absent one: the filter step returns
  every book, and the whole handler behaves as it does without a search string.
\<close>

theorem home_filter_empty_query:
  "home_filter lower (Some []) B = B \<and>
   home lower net \<lparr>sort_by = sb, search_query = Some []\<rparr> st =
     home lower net \<lparr>sort_by = sb, search_query = None\<rparr> st"
  by (simp add: home_filter_def home_def)

section \<open>The sort step\<close>

text \<open>
  Claim C3. With the directive \<open>title\<close> the sort step returns a permutation of its input
  that is non-decreasing by title in the order of character codes, and books of equal
  title keep their relative order; with \<open>author\<close> the same holds for the author's name;
  any other directive, an absent one included, leaves the list as it is. The handler sorts
  what the filter returned: when no lookup raises, the titles of its output are those of
  the sorted filtered list, in that order.
\<close>

theorem home_sort_correct:
  "mset (home_sort (Some ''title'') B) = mset B \<and>
   sorted (map title (home_sort (Some ''title'') B)) \<and>
   (\<forall>k. filter (\<lambda>b. title b = k) (home_sort (Some ''title'') B) = filter (\<lambda>b. title b = k) B) \<and>
   mset (home_sort (Some ''author'') B) = mset B \<and>
   sorted (map (\<lambda>b. name (author b)) (home_sort (Some ''author'') B)) \<and>
   (\<forall>k. filter (\<lambda>b. name (author b) = k) (home_sort (Some ''author'') B) =
        filter (\<lambda>b. name (author b) = k) B) \<and>
   (d \<noteq> Some ''title'' \<and> d \<noteq> Some ''author'' \<longrightarrow> home_sort d B = B) \<and>
   (lookups_answered net (surviving lower args st) \<longrightarrow>
      (\<exists>out. fst (home lower net args st) = Inr (Rendered ''home.html'' (Books out)) \<and>
         map (\<lambda>e. map_of e ''title'') out =
           map (\<lambda>b. Some (PStr (title b)))
             (home_sort (sort_by args) (home_filter lower (search_query args) (books st)))))"
proof -
  have t: "home_sort (Some ''title'') B = sort_key title B"
    by (simp add: home_sort_def)
  have a: "home_sort (Some ''author'') B = sort_key (\<lambda>b. name (author b)) B"
    by (simp add: home_sort_def)
  have o: "d \<noteq> Some ''title'' \<and> d \<noteq> Some ''author'' \<longrightarrow> home_sort d B = B"
    by (simp add: home_sort_def)
  have p: "lookups_answered net (surviving lower args st) \<longrightarrow>
      (\<exists>out. fst (home lower net args st) = Inr (Rendered ''home.html'' (Books out)) \<and>
         map (\<lambda>e. map_of e ''title'') out =
           map (\<lambda>b. Some (PStr (title b))) (surviving lower args st))"
  proof
    assume "lookups_answered net (surviving lower args st)"
    from home_answered [OF this] obtain out where out:
      "home lower net args st =
           (Inr (Rendered ''home.html'' (Books out)), st,
            Query_all_books # map (\<lambda>b. Requests_get (cover_url b)) (surviving lower args st))"
      "length out = length (surviving lower args st)"
      "\<forall>i<length (surviving lower args st). out ! i =
            entry_of (surviving lower args st ! i)
              (projr (cover_image_of (net i (cover_url (surviving lower args st ! i)))))"
      by blast
    have "map (\<lambda>e. map_of e ''title'') out =
           map (\<lambda>b. Some (PStr (title b))) (surviving lower args st)"
      using out(2,3) by (intro nth_equalityI) (simp_all add: entry_of_def)
    with out(1) show "\<exists>out. fst (home lower net args st) = Inr (Rendered ''home.html'' (Books out)) \<and>
         map (\<lambda>e. map_of e ''title'') out =
           map (\<lambda>b. Some (PStr (title b))) (surviving lower args st)"
      by auto
  qed
  show ?thesis
    unfolding t a using o p by (simp add: sort_key_stable)
qed

theorem home_sort_correct_witness:
  "Some ''year'' \<noteq> Some ''title'' \<and> Some ''year'' \<noteq> Some ''author'' \<and>
   home_sort (Some ''year'') [emma, dune] = [emma, dune] \<and>
   lookups_answered (net_status 404)
     (surviving lower_ascii \<lparr>sort_by = Some ''author'', search_query = Some ''E''\<rparr> library) \<and>
   (\<exists>out. fst (home lower_ascii (net_status 404) \<lparr>sort_by = Some ''author'', search_query = Some ''E''\<rparr> library) =
            Inr (Rendered ''home.html'' (Books out)) \<and>
          map (\<lambda>e. map_of e ''title'') out = [Some (PStr ''Emma''), Some (PStr ''Dune'')])"
proof -
  have h: "lookups_answered (net_status 404)
     (surviving lower_ascii \<lparr>sort_by = Some ''author'', search_query = Some ''E''\<rparr> library)"
    by (rule lookups_answered_status) simp
  have t: "title emma = ''Emma''" "title dune = ''Dune''"
    by (simp_all add: emma_def dune_def)
  from h home_sort_correct [where B = "[emma, dune]" and d = "Some ''year''" and net = "net_status 404"
      and args = "\<lparr>sort_by = Some ''author'', search_query = Some ''E''\<rparr>" and st = library
      and lower = lower_ascii]
  show ?thesis by (simp add: surv_e_author t)
qed

section \<open>Enrichment\<close>

text \<open>
  Claim C1, evaluated on the code. A lookup that raises (here: for the first of two
  books) leaves the handler as an exception: no entry is emitted, for either book. The
  same happens when the service answers 200 with a body that is not JSON. Of the failures
  of a lookup, only a reply whose status is not 200 is turned into the empty string
  (lemma \<open>cover_image_of_non_success\<close>).
\<close>

theorem home_lookup_raises:
  "home lower_ascii net_down no_args library =
     (Inl RequestException, library,
      [Query_all_books, Requests_get ''https://www.googleapis.com/books/v1/volumes?q=isbn:123'']) \<and>
   home lower_ascii (net_status 200) no_args library =
     (Inl JSONDecodeError, library,
      [Query_all_books, Requests_get ''https://www.googleapis.com/books/v1/volumes?q=isbn:123''])"
  by code_simp

text \<open>
  Claim C4, evaluated on the code. A reply 200 whose first record carries the thumbnail
  \<open>null\<close> gives the entry the cover image \<open>None\<close>, not the empty string: the default of
  \<open>get\<close> is used for a missing key only.
\<close>

theorem cover_image_null_thumbnail:
  "cover_image_of (Returns \<lparr>status_code = 200, json = Some (body_thumbnail PNone)\<rparr>) = Inr PNone \<and>
   fst (home lower_ascii (net_thumbnail PNone) \<lparr>sort_by = None, search_query = Some ''emma''\<rparr> library) =
     Inr (Rendered ''home.html'' (Books
       [[(''title'', PStr ''Emma''), (''isbn'', PStr ''456''), (''publication_year'', PInt 1815),
         (''author_name'', PAuthor austen), (''cover_image'', PNone)]]))"
  by code_simp

section \<open>The listing when no lookup raises\<close>

text \<open>
  When no lookup of a request ends in an exception, the handler renders one entry per
  surviving book, in the order of the surviving books; the entry of a book carries its
  title, isbn, publication year, its author as the object itself, and exactly one
  \<open>cover_image\<close>, which is a string whenever the thumbnail of the reply, if the reply has
  one, is a string.
\<close>

lemma home_answered_entries:
  "lookups_answered net (surviving lower args st) \<Longrightarrow>
   \<exists>out. fst (home lower net args st) = Inr (Rendered ''home.html'' (Books out)) \<and>
     length out = length (surviving lower args st) \<and>
     (\<forall>i<length (surviving lower args st).
        \<exists>c. out ! i = entry_of (surviving lower args st ! i) c \<and>
            (thumbnail_is_str (net i (cover_url (surviving lower args st ! i))) \<longrightarrow> is_str c))"
proof -
  assume a: "lookups_answered net (surviving lower args st)"
  from home_answered [OF a] obtain out where out:
    "home lower net args st =
       (Inr (Rendered ''home.html'' (Books out)), st,
        Query_all_books # map (\<lambda>b. Requests_get (cover_url b)) (surviving lower args st))"
    "length out = length (surviving lower args st)"
    "\<forall>i<length (surviving lower args st). out ! i =
        entry_of (surviving lower args st ! i)
          (projr (cover_image_of (net i (cover_url (surviving lower args st ! i)))))"
    by blast
  have "\<forall>i<length (surviving lower args st).
        \<exists>c. out ! i = entry_of (surviving lower args st ! i) c \<and>
            (thumbnail_is_str (net i (cover_url (surviving lower args st ! i))) \<longrightarrow> is_str c)"
  proof (intro allI impI)
    fix i assume i: "i < length (surviving lower args st)"
    with a have "\<not> isl (cover_image_of (net i (cover_url (surviving lower args st ! i))))"
      by (simp add: lookups_answered_iff)
    then obtain c where c: "cover_image_of (net i (cover_url (surviving lower args st ! i))) = Inr c"
      by (cases "cover_image_of (net i (cover_url (surviving lower args st ! i)))") auto
    from out(3) i c have "out ! i = entry_of (surviving lower args st ! i) c"
      by simp
    with cover_image_of_is_str [OF c]
    show "\<exists>c. out ! i = entry_of (surviving lower args st ! i) c \<and>
            (thumbnail_is_str (net i (cover_url (surviving lower args st ! i))) \<longrightarrow> is_str c)"
      by blast
  qed
  with out(1,2) show ?thesis by auto
qed

lemma home_answered_entries_example:
  "\<exists>c0 c1.
     fst (home lower_ascii (net_thumbnail (PStr ''http://books.example/cover.png''))
            \<lparr>sort_by = Some ''author'', search_query = None\<rparr> library) =
       Inr (Rendered ''home.html'' (Books [entry_of emma c0, entry_of dune c1])) \<and>
     is_str c0 \<and> is_str c1"
proof -
  have h: "lookups_answered (net_thumbnail (PStr ''http://books.example/cover.png''))
     (surviving lower_ascii \<lparr>sort_by = Some ''author'', search_query = None\<rparr> library)"
    by (rule lookups_answered_thumbnail)
  have t: "thumbnail_is_str (net_thumbnail (PStr ''http://books.example/cover.png'') i u)" for i u
    by (simp add: thumbnail_is_str_def reply_thumbnail_def net_thumbnail_def body_thumbnail_def)
  from home_answered_entries [OF h] obtain out where out:
    "fst (home lower_ascii (net_thumbnail (PStr ''http://books.example/cover.png''))
            \<lparr>sort_by = Some ''author'', search_query = None\<rparr> library) =
       Inr (Rendered ''home.html'' (Books out))"
    "length out = length [emma, dune]"
    "\<forall>i<length [emma, dune].
        \<exists>c. out ! i = entry_of ([emma, dune] ! i) c \<and>
            (thumbnail_is_str (net_thumbnail (PStr ''http://books.example/cover.png'') i
               (cover_url ([emma, dune] ! i))) \<longrightarrow>
             is_str c)"
    by (auto simp: surv_author)
  from out(2) obtain a b where ab: "out = [a, b]"
    by (auto simp: length_Suc_conv)
  from out(3) [rule_format, of 0] t ab obtain c0 where c0: "a = entry_of emma c0" "is_str c0"
    by auto
  from out(3) [rule_format, of 1] t ab obtain c1 where c1: "b = entry_of dune c1" "is_str c1"
    by auto
  from out(1) ab c0 c1 show ?thesis by auto
qed

text \<open>
  Two such runs over the same store and request render the same books in the same order:
  at every position the two entries are those of the same surviving book, have the same
  keys, and agree on every key other than \<open>cover_image\<close>.
\<close>

lemma home_answered_cover_image_only:
  "lookups_answered net1 (surviving lower args st) \<Longrightarrow>
   lookups_answered net2 (surviving lower args st) \<Longrightarrow>
   \<exists>out1 out2.
     fst (home lower net1 args st) = Inr (Rendered ''home.html'' (Books out1)) \<and>
     fst (home lower net2 args st) = Inr (Rendered ''home.html'' (Books out2)) \<and>
     length out1 = length (surviving lower args st) \<and>
     length out2 = length (surviving lower args st) \<and>
     (\<forall>i<length (surviving lower args st).
        (\<exists>c1 c2. out1 ! i = entry_of (surviving lower args st ! i) c1 \<and>
                 out2 ! i = entry_of (surviving lower args st ! i) c2) \<and>
        map fst (out1 ! i) = map fst (out2 ! i) \<and>
        (\<forall>k. k \<noteq> ''cover_image'' \<longrightarrow> map_of (out1 ! i) k = map_of (out2 ! i) k))"
proof -
  assume a1: "lookups_answered net1 (surviving lower args st)"
    and a2: "lookups_answered net2 (surviving lower args st)"
  from home_answered [OF a1] obtain out1 where o1:
    "fst (home lower net1 args st) = Inr (Rendered ''home.html'' (Books out1))"
    "length out1 = length (surviving lower args st)"
    "\<forall>i<length (surviving lower args st). out1 ! i =
        entry_of (surviving lower args st ! i)
          (projr (cover_image_of (net1 i (cover_url (surviving lower args st ! i)))))"
    by auto
  from home_answered [OF a2] obtain out2 where o2:
    "fst (home lower net2 args st) = Inr (Rendered ''home.html'' (Books out2))"
    "length out2 = length (surviving lower args st)"
    "\<forall>i<length (surviving lower args st). out2 ! i =
        entry_of (surviving lower args st ! i)
          (projr (cover_image_of (net2 i (cover_url (surviving lower args st ! i)))))"
    by auto
  have "\<forall>i<length (surviving lower args st).
        (\<exists>c1 c2. out1 ! i = entry_of (surviving lower args st ! i) c1 \<and>
                 out2 ! i = entry_of (surviving lower args st ! i) c2) \<and>
        map fst (out1 ! i) = map fst (out2 ! i) \<and>
        (\<forall>k. k \<noteq> ''cover_image'' \<longrightarrow> map_of (out1 ! i) k = map_of (out2 ! i) k)"
    using o1(3) o2(3) by (simp add: entry_of_def)
  with o1(1,2) o2(1,2) show ?thesis by blast
qed

lemma home_answered_cover_image_only_example:
  "lookups_answered (net_status 404) (surviving lower_ascii no_args library) \<and>
   lookups_answered (net_thumbnail (PStr ''http://books.example/dune.png''))
     (surviving lower_ascii no_args library) \<and>
   (\<exists>out1 out2.
     fst (home lower_ascii (net_status 404) no_args library) = Inr (Rendered ''home.html'' (Books out1)) \<and>
     fst (home lower_ascii (net_thumbnail (PStr ''http://books.example/dune.png'')) no_args library) =
       Inr (Rendered ''home.html'' (Books out2)) \<and>
     length out1 = 2 \<and> length out2 = 2 \<and>
     map (\<lambda>e. map_of e ''title'') out1 = map (\<lambda>e. map_of e ''title'') out2)"
proof -
  have h1: "lookups_answered (net_status 404) (surviving lower_ascii no_args library)"
    by (rule lookups_answered_status) simp
  have h2: "lookups_answered (net_thumbnail (PStr ''http://books.example/dune.png''))
     (surviving lower_ascii no_args library)"
    by (rule lookups_answered_thumbnail)
  from home_answered_cover_image_only [OF h1 h2] obtain out1 out2 where o:
    "fst (home lower_ascii (net_status 404) no_args library) = Inr (Rendered ''home.html'' (Books out1))"
    "fst (home lower_ascii (net_thumbnail (PStr ''http://books.example/dune.png'')) no_args library) =
       Inr (Rendered ''home.html'' (Books out2))"
    "length out1 = length (surviving lower_ascii no_args library)"
    "length out2 = length (surviving lower_ascii no_args library)"
    "\<forall>i<length (surviving lower_ascii no_args library).
        map_of (out1 ! i) ''title'' = map_of (out2 ! i) ''title''"
    by fastforce
  have l: "length (surviving lower_ascii no_args library) = 2"
    by (simp add: no_args_def surv_all)
  have "map (\<lambda>e. map_of e ''title'') out1 = map (\<lambda>e. map_of e ''title'') out2"
    using o(3,4,5) by (intro nth_equalityI) simp_all
  with h1 h2 o(1,2,3,4) l show ?thesis by auto
qed

text \<open>
  Every run of the listing handler leaves the store as it was. Its effects are one query
  of all books, then lookups for the surviving books in their order; when no lookup
  raises there is one lookup for each of them. The loads of the authors through the
  relationship are reads of the store and are not listed among the effects.
\<close>

lemma home_effects_frame:
  "fst (snd (home lower net args st)) = st \<and>
   (\<exists>k\<le>length (surviving lower args st).
      snd (snd (home lower net args st)) =
        Query_all_books # map (\<lambda>b. Requests_get (cover_url b)) (take k (surviving lower args st))) \<and>
   (lookups_answered net (surviving lower args st) \<longrightarrow>
      snd (snd (home lower net args st)) =
        Query_all_books # map (\<lambda>b. Requests_get (cover_url b)) (surviving lower args st))"
proof -
  have "lookups_answered net (surviving lower args st) \<longrightarrow>
      snd (snd (home lower net args st)) =
        Query_all_books # map (\<lambda>b. Requests_get (cover_url b)) (surviving lower args st)"
  proof
    assume "lookups_answered net (surviving lower args st)"
    from home_answered [OF this] show "snd (snd (home lower net args st)) =
        Query_all_books # map (\<lambda>b. Requests_get (cover_url b)) (surviving lower args st)"
      by auto
  qed
  with home_store [where lower = lower and net = net and args = args and st = st]
    home_trace [where lower = lower and net = net and args = args and st = st]
  show ?thesis by blast
qed

lemma home_effects_frame_example:
  "lookups_answered (net_status 404) (surviving lower_ascii no_args library) \<and>
   fst (snd (home lower_ascii (net_status 404) no_args library)) = library \<and>
   snd (snd (home lower_ascii (net_status 404) no_args library)) =
     [Query_all_books,
      Requests_get ''https://www.googleapis.com/books/v1/volumes?q=isbn:123'',
      Requests_get ''https://www.googleapis.com/books/v1/volumes?q=isbn:456'']"
proof -
  have h: "lookups_answered (net_status 404) (surviving lower_ascii no_args library)"
    by (rule lookups_answered_status) simp
  have u: "cover_url dune = ''https://www.googleapis.com/books/v1/volumes?q=isbn:123''"
    "cover_url emma = ''https://www.googleapis.com/books/v1/volumes?q=isbn:456''"
    by (simp_all add: cover_url_def dune_def emma_def str_of_def)
  from h home_effects_frame [where lower = lower_ascii and net = "net_status 404" and args = no_args and st = library] have
    "fst (snd (home lower_ascii (net_status 404) no_args library)) = library"
    "snd (snd (home lower_ascii (net_status 404) no_args library)) =
        Query_all_books # map (\<lambda>b. Requests_get (cover_url b)) (surviving lower_ascii no_args library)"
    by blast+
  with h show ?thesis by (simp add: no_args_def surv_all u)
qed

section \<open>The output of the handler\<close>

text \<open>
  Claim C5, evaluated on the code. The claim promises one entry per surviving book, each
  with a \<open>cover_image\<close> string. With two surviving books and replies 200 whose first record
  carries the thumbnail \<open>null\<close>, both entries of the listing carry the cover image \<open>None\<close>,
  which is not a string (the slip of claim C4); and a lookup that raises leaves no
  listing at all (the slip of claim C1, theorem \<open>home_lookup_raises\<close> there).
\<close>

theorem home_entries_null_thumbnail:
  "fst (home lower_ascii (net_thumbnail PNone) \<lparr>sort_by = Some ''author'', search_query = None\<rparr> library) =
     Inr (Rendered ''home.html'' (Books
       [[(''title'', PStr ''Emma''), (''isbn'', PStr ''456''), (''publication_year'', PInt 1815),
         (''author_name'', PAuthor austen), (''cover_image'', PNone)],
        [(''title'', PStr ''Dune''), (''isbn'', PStr ''123''), (''publication_year'', PInt 1965),
         (''author_name'', PAuthor herbert), (''cover_image'', PNone)]])) \<and>
   PNone \<noteq> PStr []"
  by code_simp

section \<open>Lookups and the order of the output\<close>

text \<open>
  Claim C7, evaluated on the code. The claim lets the replies of the lookup service vary
  arbitrarily and promises the same books in the same order. With the same store and the
  same request, the run whose lookups are answered 404 lists both books, the run whose
  lookups are answered 200 with a body that is not JSON lists none: \<open>response.json()\<close>
  raises and the exception leaves the handler (the slip of claim C1).
\<close>

theorem home_lookups_unreadable_reply:
  "fst (home lower_ascii (net_status 404) no_args library) =
     Inr (Rendered ''home.html'' (Books
       [[(''title'', PStr ''Dune''), (''isbn'', PStr ''123''), (''publication_year'', PInt 1965),
         (''author_name'', PAuthor herbert), (''cover_image'', PStr [])],
        [(''title'', PStr ''Emma''), (''isbn'', PStr ''456''), (''publication_year'', PInt 1815),
         (''author_name'', PAuthor austen), (''cover_image'', PStr [])]])) \<and>
   fst (home lower_ascii (net_status 200) no_args library) = Inl JSONDecodeError"
  by code_simp

section \<open>Effects of the listing handler\<close>

text \<open>
  Claim C8, evaluated on the code. The claim promises exactly one lookup per surviving
  book for every run. Two books survive, the first lookup raises, the exception leaves
  the handler, and the lookup for the second book is never issued (the slip of claim
  C1). The store is left as it was.
\<close>

theorem home_effects_lookup_raises:
  "surviving lower_ascii no_args library = [dune, emma] \<and>
   fst (snd (home lower_ascii net_down no_args library)) = library \<and>
   snd (snd (home lower_ascii net_down no_args library)) =
     [Query_all_books, Requests_get ''https://www.googleapis.com/books/v1/volumes?q=isbn:123'']"
  by code_simp

section \<open>The delete route\<close>

text \<open>
  Claim C9. For every request to the delete route whose book id is in the store, whatever
  its method, the store is left as it was and nothing is deleted or committed: the route
  is declared for \<open>GET\<close> only, so a \<open>POST\<close> is refused before the handler runs and the
  deleting branch of the handler (lemma \<open>delete_book_post_branch\<close>) is never reached; a
  \<open>GET\<close> renders the confirmation template for the book found.
\<close>

theorem delete_book_route_found:
  "query_get st book_id = Some b \<Longrightarrow>
   fst (snd (delete_book_route m book_id st)) = st \<and>
   Session_delete k \<notin> set (snd (snd (delete_book_route m book_id st))) \<and>
   Session_commit \<notin> set (snd (snd (delete_book_route m book_id st))) \<and>
   fst (delete_book_route m book_id st) \<in>
     {Inr (Rendered ''delete_book.html'' (The_book b)), Inr Options_reply, Inr Method_not_allowed} \<and>
   delete_book_route GET book_id st =
     (Inr (Rendered ''delete_book.html'' (The_book b)), st, [Query_get_book book_id]) \<and>
   delete_book_route POST book_id st = (Inr Method_not_allowed, st, [])"
  by (cases m) (simp_all add: delete_book_route_def delete_book_methods_accepts delete_book_def)

theorem delete_book_route_found_witness:
  "query_get library 1 = Some dune \<and>
   delete_book_route GET 1 library =
     (Inr (Rendered ''delete_book.html'' (The_book dune)), library, [Query_get_book 1]) \<and>
   delete_book_route POST 1 library = (Inr Method_not_allowed, library, []) \<and>
   books (fst (snd (delete_book_route POST 1 library))) = [dune, emma]"
proof -
  have h: "query_get library 1 = Some dune"
    by (simp add: query_get_def library_def dune_def)
  from h delete_book_route_found [OF h, of POST] show ?thesis
    by (simp add: library_def)
qed

text \<open>
  Claim C10. When the book id is not in the store, the handler does not return a
  redirect: the call of \<open>redirect\<close> with the keyword \<open>message\<close> raises \<open>TypeError\<close>, which
  leaves the handler; the store is left as it was, and no request to the route is
  answered with a redirect.
\<close>

theorem delete_book_not_found:
  "query_get st book_id = None \<Longrightarrow>
   delete_book m book_id st = (Inl TypeError, st, [Query_get_book book_id]) \<and>
   fst (snd (delete_book_route m book_id st)) = st \<and>
   fst (delete_book_route m book_id st) \<noteq> Inr (Redirected loc code) \<and>
   delete_book_route GET book_id st = (Inl TypeError, st, [Query_get_book book_id])"
  by (cases m) (simp_all add: delete_book_route_def delete_book_methods_accepts delete_book_def
      redirect_message)

theorem delete_book_not_found_witness:
  "query_get library 7 = None \<and>
   delete_book_route GET 7 library = (Inl TypeError, library, [Query_get_book 7]) \<and>
   fst (delete_book_route GET 7 library) \<noteq> Inr (Redirected ''/'' 303)"
proof -
  have h: "query_get library 7 = None"
    by (simp add: query_get_def library_def dune_def emma_def)
  from h delete_book_not_found [OF h, of GET "''/''" 303] show ?thesis
    by simp
qed

end
